theory Spec2Isabelle
  imports Main
begin

section \<open>Activity-log records and the durable store\<close>

text \<open>
  Embedding of \<^verbatim>\<open>internal/models/user_log.go\<close>,
  \<^verbatim>\<open>internal/repository/interfaces.go\<close> (the user-log repository) and
  \<^verbatim>\<open>internal/middleware/security.go\<close> (the rate limiter).

  Time is an integer count of milliseconds, the resolution of a stored date. Go's
  \<^verbatim>\<open>int\<close> and \<^verbatim>\<open>int64\<close> are modelled by \<open>int\<close>; the one product
  that can leave the 64-bit range is wrapped explicitly.
\<close>

type_synonym time = int

record LogData =
  Action :: string
  Error :: string
  Duration :: int
  StatusCode :: int

text \<open>
  \<^verbatim>\<open>UserLog\<close>: the store-assigned \<^verbatim>\<open>_id\<close> and the free-form maps
  \<^verbatim>\<open>details\<close>, \<^verbatim>\<open>old_values\<close>, \<^verbatim>\<open>new_values\<close> are never read by the
  repository code and are left out.
\<close>

record UserLog =
  UserID :: "string option"
  Event :: string
  Data :: LogData
  Timestamp :: time
  IPAddress :: string
  UserAgent :: string

record UserLogResponse =
  rsp_Event :: string
  rsp_Data :: LogData
  rsp_Timestamp :: time
  rsp_IPAddress :: string
  rsp_UserAgent :: string

record UserLogsListResponse =
  Logs :: "UserLogResponse list"
  Total :: int
  rsp_Page :: int
  rsp_PageSize :: int
  TotalPages :: int

record LogFilterRequest =
  flt_UserID :: "string option"
  flt_Event :: "string option"
  StartDate :: "time option"
  EndDate :: "time option"
  flt_IPAddress :: string
  flt_Action :: string
  Page :: int
  PageSize :: int

definition ToResponse :: "UserLog \<Rightarrow> UserLogResponse" where
  "ToResponse ul =
     \<lparr>rsp_Event = Event ul, rsp_Data = Data ul, rsp_Timestamp = Timestamp ul,
      rsp_IPAddress = IPAddress ul, rsp_UserAgent = UserAgent ul\<rparr>"

text \<open>Go's zero \<^verbatim>\<open>time.Time\<close> is 1 January of year 1, UTC.\<close>

definition zero_time :: time where
  "zero_time = - 62135596800000"

definition IsZero :: "time \<Rightarrow> bool" where
  "IsZero t = (t = zero_time)"

subsection \<open>Filter documents\<close>

text \<open>
  The repository hands the store \<^verbatim>\<open>bson.M\<close> documents. A document of field
  conditions is a list of (field path, condition) pairs, all of which must hold;
  \<^verbatim>\<open>$and\<close> and \<^verbatim>\<open>$or\<close> take lists of documents.
\<close>

datatype bval = VString string | VDate time | VBinary string

datatype cond =
    Equals bval
  | Regex string string
  | Range "time option" "time option"

datatype query =
    Fields "(string \<times> cond) list"
  | And "query list"
  | Or "query list"

text \<open>
  The document a \<^verbatim>\<open>UserLog\<close> is stored as, by its \<^verbatim>\<open>bson\<close> tags:
  fields tagged \<^verbatim>\<open>omitempty\<close> are absent when they hold the zero value.
\<close>

definition fieldOf :: "UserLog \<Rightarrow> string \<Rightarrow> bval option" where
  "fieldOf r k =
     (if k = ''user_id'' then map_option VString (UserID r)
      else if k = ''event'' then Some (VString (Event r))
      else if k = ''data.action'' then Some (VString (Action (Data r)))
      else if k = ''data.error'' then
        (if Error (Data r) = [] then None else Some (VString (Error (Data r))))
      else if k = ''timestamp'' then Some (VDate (Timestamp r))
      else if k = ''ip_address'' then
        (if IPAddress r = [] then None else Some (VString (IPAddress r)))
      else if k = ''user_agent'' then
        (if UserAgent r = [] then None else Some (VString (UserAgent r)))
      else None)"

text \<open>
  What the store does with one condition. The regular-expression engine belongs to the
  store, not to this repository: it is the parameter \<open>rx\<close>, called with the pattern,
  the options and the subject string. A regular expression matches string values only,
  a date range date values only, and nothing matches an absent field.
\<close>

type_synonym matcher = "string \<Rightarrow> string \<Rightarrow> string \<Rightarrow> bool"

fun holds :: "matcher \<Rightarrow> cond \<Rightarrow> bval option \<Rightarrow> bool" where
  "holds rx (Equals v) fv = (fv = Some v)"
| "holds rx (Regex p opts) (Some (VString s)) = rx p opts s"
| "holds rx (Regex p opts) _ = False"
| "holds rx (Range lo hi) (Some (VDate t)) =
     ((case lo of None \<Rightarrow> True | Some a \<Rightarrow> a \<le> t) \<and>
      (case hi of None \<Rightarrow> True | Some b \<Rightarrow> t \<le> b))"
| "holds rx (Range lo hi) _ = False"

fun matches :: "matcher \<Rightarrow> query \<Rightarrow> UserLog \<Rightarrow> bool" where
  "matches rx (Fields cs) r = list_all (\<lambda>kc. holds rx (snd kc) (fieldOf r (fst kc))) cs"
| "matches rx (And qs) r = list_all (\<lambda>q. matches rx q r) qs"
| "matches rx (Or qs) r = list_ex (\<lambda>q. matches rx q r) qs"

subsection \<open>The collection\<close>

datatype error =
    StoreError
  | FailedToCreate
  | FailedToBulkCreate
  | FailedToCount
  | FailedToFind
  | FailedToGetStats

record Collection =
  docs :: "UserLog list"
  available :: bool

definition CountDocuments :: "matcher \<Rightarrow> Collection \<Rightarrow> query \<Rightarrow> error + int" where
  "CountDocuments rx c q =
     (if available c then Inr (int (length (filter (matches rx q) (docs c))))
      else Inl StoreError)"

text \<open>A limit of zero is no limit; a negative limit returns that many documents.\<close>

definition limit_docs :: "int \<Rightarrow> 'a list \<Rightarrow> 'a list" where
  "limit_docs n xs = (if n = 0 then xs else take (nat \<bar>n\<bar>) xs)"

text \<open>
  \<^verbatim>\<open>Find\<close> with the options the repository sets: sort on \<^verbatim>\<open>timestamp\<close>
  descending, then skip, then limit. The store rejects a negative skip.
\<close>

definition Find :: "matcher \<Rightarrow> Collection \<Rightarrow> query \<Rightarrow> int \<Rightarrow> int \<Rightarrow> error + UserLog list" where
  "Find rx c q skip lim =
     (if \<not> available c \<or> skip < 0 then Inl StoreError
      else Inr (limit_docs lim (drop (nat skip)
                  (sort_key (\<lambda>r. - Timestamp r) (filter (matches rx q) (docs c))))))"

definition InsertOne :: "Collection \<Rightarrow> UserLog \<Rightarrow> error + Collection" where
  "InsertOne c d = (if available c then Inr (c\<lparr>docs := docs c @ [d]\<rparr>) else Inl StoreError)"

definition InsertMany :: "Collection \<Rightarrow> UserLog list \<Rightarrow> error + Collection" where
  "InsertMany c ds = (if available c then Inr (c\<lparr>docs := docs c @ ds\<rparr>) else Inl StoreError)"

subsection \<open>Listing and searching\<close>

text \<open>The value a 64-bit signed integer holds after an arithmetic result wraps around.\<close>

definition wrap64 :: "int \<Rightarrow> int" where
  "wrap64 x = (x + 2 ^ 63) mod 2 ^ 64 - 2 ^ 63"

text \<open>Go's integer division truncates towards zero.\<close>

definition go_div :: "int \<Rightarrow> int \<Rightarrow> int" where
  "go_div a b = sgn a * sgn b * (\<bar>a\<bar> div \<bar>b\<bar>)"

definition CalculateTotalPages :: "int \<Rightarrow> int \<Rightarrow> int" where
  "CalculateTotalPages totl pageSize =
     (if pageSize \<le> 0 then 0 else go_div (wrap64 (totl + pageSize - 1)) pageSize)"

text \<open>
  \<open>enc\<close> is the store driver's encoding of a \<^verbatim>\<open>uuid.UUID\<close> value, which the
  filter holds where the stored document holds a string. The driver writes such a
  value, an array of 16 bytes, as binary data; the project's status report has the store
  answering \<^verbatim>\<open>user_id field expects string (UUID) but receiving binary data\<close>.
  A uuid is modelled by its text.
\<close>

definition driver_enc :: "string \<Rightarrow> bval" where
  "driver_enc u = VBinary u"

definition buildLogFilter :: "(string \<Rightarrow> bval) \<Rightarrow> LogFilterRequest \<Rightarrow> query" where
  "buildLogFilter enc f =
     Fields
      ((case flt_UserID f of None \<Rightarrow> [] | Some u \<Rightarrow> [(''user_id'', Equals (enc u))]) @
       (case flt_Event f of None \<Rightarrow> [] | Some e \<Rightarrow> [(''event'', Equals (VString e))]) @
       (if flt_IPAddress f \<noteq> [] then [(''ip_address'', Regex (flt_IPAddress f) ''i'')] else []) @
       (if flt_Action f \<noteq> [] then [(''data.action'', Regex (flt_Action f) ''i'')] else []) @
       (if StartDate f \<noteq> None \<or> EndDate f \<noteq> None
        then [(''timestamp'', Range (StartDate f) (EndDate f))] else []))"

text \<open>The defaults block that opens both \<^verbatim>\<open>List\<close> and \<^verbatim>\<open>SearchLogs\<close>.\<close>

definition set_defaults :: "LogFilterRequest \<Rightarrow> LogFilterRequest" where
  "set_defaults f =
     (let f1 = (if Page f \<le> 0 then f\<lparr>Page := 1\<rparr> else f)
      in if PageSize f1 \<le> 0 \<or> PageSize f1 > 100 then f1\<lparr>PageSize := 10\<rparr> else f1)"

text \<open>
  After the defaults and the filter document, \<^verbatim>\<open>List\<close> and \<^verbatim>\<open>SearchLogs\<close> run
  the same statements: count, find with skip, limit and sort, convert, and build the
  response. Each store error is wrapped in the message of the step that failed.
\<close>

definition run_query ::
  "matcher \<Rightarrow> Collection \<Rightarrow> query \<Rightarrow> LogFilterRequest \<Rightarrow> error + UserLogsListResponse" where
  "run_query rx c q f =
     (case CountDocuments rx c q of
        Inl e \<Rightarrow> Inl FailedToCount
      | Inr totl \<Rightarrow>
         (case Find rx c q (wrap64 ((Page f - 1) * PageSize f)) (PageSize f) of
            Inl e \<Rightarrow> Inl FailedToFind
          | Inr logs \<Rightarrow>
              Inr \<lparr>Logs = map ToResponse logs, Total = totl, rsp_Page = Page f,
                   rsp_PageSize = PageSize f,
                   TotalPages = CalculateTotalPages totl (PageSize f)\<rparr>))"

definition List ::
  "matcher \<Rightarrow> (string \<Rightarrow> bval) \<Rightarrow> Collection \<Rightarrow> LogFilterRequest \<Rightarrow> error + UserLogsListResponse" where
  "List rx enc c filter0 =
     (let f = set_defaults filter0 in run_query rx c (buildLogFilter enc f) f)"

definition searchFilter :: "string \<Rightarrow> query" where
  "searchFilter searchTerm =
     Or [Fields [(''event'', Regex searchTerm ''i'')],
         Fields [(''data.action'', Regex searchTerm ''i'')],
         Fields [(''data.error'', Regex searchTerm ''i'')],
         Fields [(''ip_address'', Regex searchTerm ''i'')]]"

definition combinedFilter :: "(string \<Rightarrow> bval) \<Rightarrow> string \<Rightarrow> LogFilterRequest \<Rightarrow> query" where
  "combinedFilter enc searchTerm f = And [buildLogFilter enc f, searchFilter searchTerm]"

definition SearchLogs ::
  "matcher \<Rightarrow> (string \<Rightarrow> bval) \<Rightarrow> Collection \<Rightarrow> string \<Rightarrow> LogFilterRequest
     \<Rightarrow> error + UserLogsListResponse" where
  "SearchLogs rx enc c searchTerm filter0 =
     (let f = set_defaults filter0 in run_query rx c (combinedFilter enc searchTerm f) f)"

subsection \<open>Event statistics\<close>

text \<open>
  \<^verbatim>\<open>AddDate(0, 0, d)\<close> on a UTC time: \<open>d\<close> days of 86,400,000 milliseconds.
\<close>

definition AddDate_days :: "time \<Rightarrow> int \<Rightarrow> time" where
  "AddDate_days t d = t + d * 86400000"

text \<open>
  The \<^verbatim>\<open>$group\<close> stage with \<^verbatim>\<open>_id: "$event"\<close> and
  \<^verbatim>\<open>count: {$sum: 1}\<close>: one result per event kind among the matched documents.
\<close>

definition group_by_event :: "UserLog list \<Rightarrow> (string \<times> int) list" where
  "group_by_event ms =
     map (\<lambda>k. (k, int (length (filter (\<lambda>r. Event r = k) ms)))) (remdups (map Event ms))"

definition Aggregate :: "matcher \<Rightarrow> Collection \<Rightarrow> query \<Rightarrow> error + (string \<times> int) list" where
  "Aggregate rx c matchStage =
     (if available c then Inr (group_by_event (filter (matches rx matchStage) (docs c)))
      else Inl StoreError)"

text \<open>
  Every result decodes (an event kind is a string, a count an integer), so the
  \<^verbatim>\<open>continue\<close> on a decoding error is never taken.
\<close>

definition GetEventStats ::
  "matcher \<Rightarrow> (string \<Rightarrow> bval) \<Rightarrow> Collection \<Rightarrow> time \<Rightarrow> string option \<Rightarrow> int
     \<Rightarrow> error + (string \<rightharpoonup> int)" where
  "GetEventStats rx enc c now userID days =
     (let matchStage =
            Fields ([(''timestamp'', Range (Some (AddDate_days now (- days))) None)] @
                    (case userID of None \<Rightarrow> [] | Some u \<Rightarrow> [(''user_id'', Equals (enc u))]))
      in case Aggregate rx c matchStage of
           Inl e \<Rightarrow> Inl FailedToGetStats
         | Inr results \<Rightarrow> Inr (fold (\<lambda>res stats. stats(fst res \<mapsto> snd res)) results Map.empty))"

text \<open>
  In the words of the specification: a record is in the scope of a statistics request
  when it lies in the trailing window of that many days and, if an actor is given,
  belongs to that actor: its stored user id is the text of the actor's id.
\<close>

definition in_scope :: "time \<Rightarrow> string option \<Rightarrow> int \<Rightarrow> UserLog \<Rightarrow> bool" where
  "in_scope now userID days r =
     (AddDate_days now (- days) \<le> Timestamp r \<and>
      (case userID of None \<Rightarrow> True | Some u \<Rightarrow> UserID r = Some u))"

text \<open>
  The four fields that \<^verbatim>\<open>SearchLogs\<close> tries the search term on; an empty error
  text or client address is not stored and cannot match.
\<close>

definition search_hit :: "matcher \<Rightarrow> string \<Rightarrow> UserLog \<Rightarrow> bool" where
  "search_hit rx searchTerm r =
     (rx searchTerm ''i'' (Event r) \<or> rx searchTerm ''i'' (Action (Data r)) \<or>
      (Error (Data r) \<noteq> [] \<and> rx searchTerm ''i'' (Error (Data r))) \<or>
      (IPAddress r \<noteq> [] \<and> rx searchTerm ''i'' (IPAddress r)))"

section \<open>The ingestion queue and its worker\<close>

text \<open>
  The repository with its worker: \<open>logChannel\<close> is the buffer of the channel, oldest
  record first, and \<open>batch\<close> the worker's local slice. A closed channel is a flag.
  \<open>wg\<close> is the wait-group counter: 1 while the worker goroutine runs, 0 once it has
  returned.
\<close>

record userLogRepository =
  collection :: Collection
  logChannel :: "UserLog list"
  logChannel_closed :: bool
  stopChan_closed :: bool
  batch :: "UserLog list"
  wg :: nat

definition logChannel_cap :: nat where
  "logChannel_cap = 1000"

definition NewUserLogRepository :: "Collection \<Rightarrow> userLogRepository" where
  "NewUserLogRepository c =
     \<lparr>collection = c, logChannel = [], logChannel_closed = False, stopChan_closed = False,
      batch = [], wg = 1\<rparr>"

text \<open>
  \<^verbatim>\<open>if logEntry.Timestamp.IsZero() { logEntry.Timestamp = time.Now() }\<close>, which
  \<^verbatim>\<open>Create\<close>, \<^verbatim>\<open>CreateAsync\<close> and \<^verbatim>\<open>BulkCreate\<close> all start with.
\<close>

definition stamp :: "time \<Rightarrow> UserLog \<Rightarrow> UserLog" where
  "stamp now logEntry =
     (if IsZero (Timestamp logEntry) then logEntry\<lparr>Timestamp := now\<rparr> else logEntry)"

definition Create :: "Collection \<Rightarrow> time \<Rightarrow> UserLog \<Rightarrow> error + Collection" where
  "Create c now logEntry =
     (case InsertOne c (stamp now logEntry) of
        Inl e \<Rightarrow> Inl FailedToCreate
      | Inr c' \<Rightarrow> Inr c')"

definition BulkCreate :: "Collection \<Rightarrow> time \<Rightarrow> UserLog list \<Rightarrow> error + Collection" where
  "BulkCreate c now logs =
     (if logs = [] then Inr c
      else case InsertMany c (map (stamp now) logs) of
             Inl e \<Rightarrow> Inl FailedToBulkCreate
           | Inr c' \<Rightarrow> Inr c')"

text \<open>
  \<^verbatim>\<open>processBatch\<close> logs a failed bulk write and returns: the batch is dropped.
\<close>

definition processBatch :: "Collection \<Rightarrow> time \<Rightarrow> UserLog list \<Rightarrow> Collection" where
  "processBatch c now logs = (case BulkCreate c now logs of Inl e \<Rightarrow> c | Inr c' \<Rightarrow> c')"

text \<open>
  What a call of \<^verbatim>\<open>CreateAsync\<close> gives its caller: \<^verbatim>\<open>nil\<close>, an error, or a
  panic (a send on a closed channel panics, also inside a \<^verbatim>\<open>select\<close> with a
  default case). The send succeeds exactly when the buffer has room.
\<close>

datatype outcome = NoError | Err error | Panic

definition CreateAsync ::
  "userLogRepository \<Rightarrow> time \<Rightarrow> UserLog \<Rightarrow> outcome \<times> userLogRepository" where
  "CreateAsync r now logEntry0 =
     (let logEntry = stamp now logEntry0
      in if logChannel_closed r then (Panic, r)
         else if length (logChannel r) < logChannel_cap
           then (NoError, r\<lparr>logChannel := logChannel r @ [logEntry]\<rparr>)
         else case Create (collection r) now logEntry of
                Inl e \<Rightarrow> (Err e, r)
              | Inr c' \<Rightarrow> (NoError, r\<lparr>collection := c'\<rparr>))"

text \<open>
  One iteration of the worker's \<^verbatim>\<open>for { select { ... } }\<close>: the case taken, and
  \<open>None\<close> when that case is not ready or the worker has returned. When several cases
  are ready the runtime picks any of them.
\<close>

datatype select_case = RecvLog | Tick | Stop

fun worker_step :: "select_case \<Rightarrow> time \<Rightarrow> userLogRepository \<Rightarrow> userLogRepository option" where
  "worker_step RecvLog now r =
     (if wg r = 0 then None
      else case logChannel r of
             [] \<Rightarrow> None
           | logEntry # rest \<Rightarrow>
               (let b = batch r @ [logEntry]
                in if length b \<ge> 10
                   then Some (r\<lparr>logChannel := rest, batch := [],
                                collection := processBatch (collection r) now b\<rparr>)
                   else Some (r\<lparr>logChannel := rest, batch := b\<rparr>)))"
| "worker_step Tick now r =
     (if wg r = 0 then None
      else if length (batch r) > 0
        then Some (r\<lparr>batch := [], collection := processBatch (collection r) now (batch r)\<rparr>)
      else Some r)"
| "worker_step Stop now r =
     (if wg r = 0 \<or> \<not> stopChan_closed r then None
      else if length (batch r) > 0
        then Some (r\<lparr>collection := processBatch (collection r) now (batch r), wg := 0\<rparr>)
      else Some (r\<lparr>wg := 0\<rparr>))"

text \<open>
  \<^verbatim>\<open>Close\<close> closes \<^verbatim>\<open>stopChan\<close> (closing it twice panics), waits for the
  worker, and closes \<^verbatim>\<open>logChannel\<close>. \<open>sched\<close> lists the cases the worker takes
  while \<^verbatim>\<open>Close\<close> waits; \<open>None\<close> when the worker has not returned at their end.
\<close>

fun run_worker :: "select_case list \<Rightarrow> time \<Rightarrow> userLogRepository \<Rightarrow> userLogRepository option" where
  "run_worker [] now r = Some r"
| "run_worker (s # ss) now r =
     (case worker_step s now r of None \<Rightarrow> None | Some r' \<Rightarrow> run_worker ss now r')"

definition Close :: "select_case list \<Rightarrow> time \<Rightarrow> userLogRepository \<Rightarrow> userLogRepository option" where
  "Close sched now r =
     (if stopChan_closed r then None
      else case run_worker sched now (r\<lparr>stopChan_closed := True\<rparr>) of
             None \<Rightarrow> None
           | Some r' \<Rightarrow> if wg r' = 0 then Some (r'\<lparr>logChannel_closed := True\<rparr>) else None)"

text \<open>
  The pipeline as a transition system: producers submit, the worker iterates, the store
  goes down and comes back, and \<^verbatim>\<open>Close\<close> is split at its wait.
\<close>

datatype event =
    Submit UserLog
  | Worker select_case
  | CloseBegin
  | CloseEnd
  | StoreAvailable bool

fun step :: "event \<Rightarrow> time \<Rightarrow> userLogRepository \<Rightarrow> userLogRepository option" where
  "step (Submit logEntry) now r =
     (case CreateAsync r now logEntry of (Panic, r') \<Rightarrow> None | (res, r') \<Rightarrow> Some r')"
| "step (Worker s) now r = worker_step s now r"
| "step CloseBegin now r =
     (if stopChan_closed r then None else Some (r\<lparr>stopChan_closed := True\<rparr>))"
| "step CloseEnd now r =
     (if stopChan_closed r \<and> wg r = 0 \<and> \<not> logChannel_closed r
      then Some (r\<lparr>logChannel_closed := True\<rparr>) else None)"
| "step (StoreAvailable b) now r = Some (r\<lparr>collection := (collection r)\<lparr>available := b\<rparr>\<rparr>)"

inductive reachable :: "userLogRepository \<Rightarrow> bool" where
  reach_init: "reachable (NewUserLogRepository c)"
| reach_step: "reachable r \<Longrightarrow> step ev now r = Some r' \<Longrightarrow> reachable r'"



fun run :: "(event \<times> time) list \<Rightarrow> userLogRepository \<Rightarrow> userLogRepository option" where
  "run [] r = Some r"
| "run (et # ets) r =
     (case step (fst et) (snd et) r of None \<Rightarrow> None | Some r' \<Rightarrow> run ets r')"

section \<open>The rate limiter\<close>

text \<open>
  The channel \<^verbatim>\<open>limiter\<close> carries empty structs, so its content is its length.
  Each token in it belongs to one goroutine that sleeps for the rate interval and then
  receives: the channel is modelled by the list of the times at which those goroutines
  wake, one per token.
\<close>

record Visitor =
  limiter :: "time list"
  lastSeen :: time

record RateLimiter =
  visitors :: "string \<rightharpoonup> Visitor"
  rate :: time
  burst :: int

definition Hour :: time where
  "Hour = 3600000"

definition NewRateLimiter :: "time \<Rightarrow> int \<Rightarrow> RateLimiter" where
  "NewRateLimiter rate0 burst0 = \<lparr>visitors = Map.empty, rate = rate0, burst = burst0\<rparr>"

text \<open>
  \<^verbatim>\<open>Allow\<close>, called at time \<open>now\<close>. \<^verbatim>\<open>make(chan struct{}, burst)\<close> panics on
  a negative capacity: the result is \<open>None\<close> then. The \<^verbatim>\<open>select\<close> sends when the
  buffer has room and takes the default case otherwise, so the call never waits.
\<close>

definition Allow :: "RateLimiter \<Rightarrow> time \<Rightarrow> string \<Rightarrow> (bool \<times> RateLimiter) option" where
  "Allow rl now ip =
     (case (case visitors rl ip of
              None \<Rightarrow> if burst rl < 0 then None else Some \<lparr>limiter = [], lastSeen = now\<rparr>
            | Some v \<Rightarrow> Some v) of
        None \<Rightarrow> None
      | Some visitor0 \<Rightarrow>
          (let visitor = visitor0\<lparr>lastSeen := now\<rparr>
           in if int (length (limiter visitor)) < burst rl
              then Some (True, rl\<lparr>visitors := (visitors rl)
                           (ip \<mapsto> visitor\<lparr>limiter := limiter visitor @ [now + rate rl]\<rparr>)\<rparr>)
              else Some (False, rl\<lparr>visitors := (visitors rl)(ip \<mapsto> visitor)\<rparr>)))"

text \<open>
  One goroutine started by an admitted call finishes its sleep and receives from the
  channel; \<open>None\<close> when no goroutine of that visitor has slept long enough. A goroutine
  holds the visitor it was started for: once that visitor is evicted, its receive no
  longer touches the map.
\<close>

definition release :: "RateLimiter \<Rightarrow> time \<Rightarrow> string \<Rightarrow> RateLimiter option" where
  "release rl now ip =
     (case visitors rl ip of
        None \<Rightarrow> None
      | Some visitor \<Rightarrow>
          (case filter (\<lambda>t. t \<le> now) (limiter visitor) of
             [] \<Rightarrow> None
           | t # ts \<Rightarrow>
               Some (rl\<lparr>visitors := (visitors rl)
                       (ip \<mapsto> visitor\<lparr>limiter := remove1 t (limiter visitor)\<rparr>)\<rparr>)))"

text \<open>
  One pass of the loop in \<^verbatim>\<open>cleanupVisitors\<close>, after its one-minute sleep.
\<close>

definition cleanupVisitors :: "RateLimiter \<Rightarrow> time \<Rightarrow> RateLimiter" where
  "cleanupVisitors rl now =
     rl\<lparr>visitors := (\<lambda>ip. case visitors rl ip of
                            None \<Rightarrow> None
                          | Some visitor \<Rightarrow>
                              if now - lastSeen visitor > Hour then None else Some visitor)\<rparr>"

text \<open>
  Runs of the limiter: calls of \<^verbatim>\<open>Allow\<close>, goroutine wake-ups and sweeps, each at a
  time; a run collects the answers of the calls.
\<close>

datatype rl_event = Call string | Wakeup string | Sweep

fun rl_step :: "rl_event \<Rightarrow> time \<Rightarrow> RateLimiter \<Rightarrow> (bool list \<times> RateLimiter) option" where
  "rl_step (Call ip) now rl =
     (case Allow rl now ip of None \<Rightarrow> None | Some (ok, rl') \<Rightarrow> Some ([ok], rl'))"
| "rl_step (Wakeup ip) now rl =
     (case release rl now ip of None \<Rightarrow> None | Some rl' \<Rightarrow> Some ([], rl'))"
| "rl_step Sweep now rl = Some ([], cleanupVisitors rl now)"

fun rl_run :: "(rl_event \<times> time) list \<Rightarrow> RateLimiter \<Rightarrow> (bool list \<times> RateLimiter) option" where
  "rl_run [] rl = Some ([], rl)"
| "rl_run (et # ets) rl =
     (case rl_step (fst et) (snd et) rl of
        None \<Rightarrow> None
      | Some (oks, rl') \<Rightarrow>
          (case rl_run ets rl' of None \<Rightarrow> None | Some (oks', rl'') \<Rightarrow> Some (oks @ oks', rl'')))"

section \<open>Concrete inputs\<close>

text \<open>
  A stand-in for the store's regular-expression engine on patterns without
  metacharacters: such a pattern matches the strings that contain it, and option
  \<^verbatim>\<open>i\<close> compares letters without regard to case.
\<close>

definition to_lower :: "char \<Rightarrow> char" where
  "to_lower c =
     (if (65::nat) \<le> of_char c \<and> of_char c \<le> (90::nat) then char_of (of_char c + (32::nat)) else c)"

fun contains :: "string \<Rightarrow> string \<Rightarrow> bool" where
  "contains p [] = (p = [])"
| "contains p (c # cs) = (take (length p) (c # cs) = p \<or> contains p cs)"

definition literal_regex :: matcher where
  "literal_regex p opts s =
     (if CHR ''i'' \<in> set opts then contains (map to_lower p) (map to_lower s) else contains p s)"

definition ex_log :: "time \<Rightarrow> UserLog" where
  "ex_log t =
     \<lparr>UserID = None, Event = ''USER_LOGIN'',
      Data = \<lparr>Action = ''login'', Error = [], Duration = 0, StatusCode = 200\<rparr>,
      Timestamp = t, IPAddress = ''192.168.0.1'', UserAgent = ''curl''\<rparr>"

definition ex_filter :: "int \<Rightarrow> int \<Rightarrow> LogFilterRequest" where
  "ex_filter p ps =
     \<lparr>flt_UserID = None, flt_Event = None, StartDate = Some 3, EndDate = Some 20,
      flt_IPAddress = [], flt_Action = [], Page = p, PageSize = ps\<rparr>"

definition ex_coll :: Collection where
  "ex_coll = \<lparr>docs = [ex_log 5, ex_log 1, ex_log 30, ex_log 9], available = True\<rparr>"

definition ex_coll12 :: Collection where
  "ex_coll12 =
     \<lparr>docs = map ex_log [1, 2, 3, 4, 5, 6, 7, 8, 9, 10, 11, 12], available = True\<rparr>"

definition ex_event :: "string \<Rightarrow> string \<Rightarrow> time \<Rightarrow> UserLog" where
  "ex_event u e t = (ex_log t)\<lparr>UserID := Some u, Event := e\<rparr>"

definition ex_actor1 :: string where
  "ex_actor1 = ''550e8400-e29b-41d4-a716-446655440001''"

definition ex_actor2 :: string where
  "ex_actor2 = ''550e8400-e29b-41d4-a716-446655440002''"

definition ex_coll_stats :: Collection where
  "ex_coll_stats =
     \<lparr>docs = [ex_event ex_actor1 ''USER_LOGIN'' 1000,
              ex_event ex_actor2 ''USER_LOGIN'' 864000000,
              ex_event ex_actor2 ''USER_UPDATED'' 500000000,
              ex_event ex_actor2 ''USER_LOGIN'' 259200000,
              ex_event ex_actor2 ''USER_DELETED'' 259199999],
      available = True\<rparr>"

definition ex_all :: LogFilterRequest where
  "ex_all =
     \<lparr>flt_UserID = None, flt_Event = None, StartDate = None, EndDate = None,
      flt_IPAddress = [], flt_Action = [], Page = 1, PageSize = 10\<rparr>"

definition ex_empty :: Collection where
  "ex_empty = \<lparr>docs = [], available = True\<rparr>"

definition ex_down :: Collection where
  "ex_down = \<lparr>docs = [], available = False\<rparr>"

definition ex_full :: userLogRepository where
  "ex_full = ((\<lambda>r. snd (CreateAsync r 1 (ex_log 1))) ^^ 1000) (NewUserLogRepository ex_down)"

definition ex_nine :: userLogRepository where
  "ex_nine =
     \<lparr>collection = ex_empty, logChannel = [ex_log 10], logChannel_closed = False,
      stopChan_closed = False,
      batch = map ex_log [1, 2, 3, 4, 5, 6, 7, 8, 9], wg = 1\<rparr>"

definition ex_nine_events :: "(event \<times> time) list" where
  "ex_nine_events =
     concat (map (\<lambda>t. [(Submit (ex_log t), t), (Worker RecvLog, t)]) [1, 2, 3, 4, 5, 6, 7, 8, 9]) @
     [(Submit (ex_log 10), 10)]"

definition ex_limiter :: RateLimiter where
  "ex_limiter =
     \<lparr>visitors = [''10.0.0.1'' \<mapsto> \<lparr>limiter = [600, 600], lastSeen = 0\<rparr>,
                  ''10.0.0.2'' \<mapsto> \<lparr>limiter = [], lastSeen = 1000\<rparr>],
      rate = 600, burst = 2\<rparr>"

section \<open>Properties of listing and searching\<close>

lemma set_defaults_fields:
  "Page (set_defaults f) = (if Page f \<le> 0 then 1 else Page f)"
  "PageSize (set_defaults f) = (if PageSize f \<le> 0 \<or> 100 < PageSize f then 10 else PageSize f)"
  "StartDate (set_defaults f) = StartDate f"
  "EndDate (set_defaults f) = EndDate f"
  "flt_UserID (set_defaults f) = flt_UserID f"
  "flt_Event (set_defaults f) = flt_Event f"
  "flt_IPAddress (set_defaults f) = flt_IPAddress f"
  "flt_Action (set_defaults f) = flt_Action f"
  by (simp_all add: set_defaults_def Let_def)

lemma buildLogFilter_set_defaults:
  "buildLogFilter enc (set_defaults f) = buildLogFilter enc f"
  by (simp add: buildLogFilter_def set_defaults_fields)

text \<open>The predicate that the document built by \<^verbatim>\<open>buildLogFilter\<close> denotes.\<close>

lemma matches_buildLogFilter:
  "matches rx (buildLogFilter enc f) r \<longleftrightarrow>
     (\<forall>u. flt_UserID f = Some u \<longrightarrow> map_option VString (UserID r) = Some (enc u)) \<and>
     (\<forall>e. flt_Event f = Some e \<longrightarrow> Event r = e) \<and>
     (flt_IPAddress f \<noteq> [] \<longrightarrow> IPAddress r \<noteq> [] \<and> rx (flt_IPAddress f) ''i'' (IPAddress r)) \<and>
     (flt_Action f \<noteq> [] \<longrightarrow> rx (flt_Action f) ''i'' (Action (Data r))) \<and>
     (\<forall>a. StartDate f = Some a \<longrightarrow> a \<le> Timestamp r) \<and>
     (\<forall>b. EndDate f = Some b \<longrightarrow> Timestamp r \<le> b)"
  by (cases "flt_UserID f"; cases "flt_Event f"; cases "StartDate f"; cases "EndDate f";
      simp add: buildLogFilter_def fieldOf_def)

lemma run_query_Inr:
  "run_query rx c q f = Inr resp \<Longrightarrow>
     available c \<and> 0 \<le> wrap64 ((Page f - 1) * PageSize f) \<and>
     resp = \<lparr>Logs = map ToResponse (limit_docs (PageSize f)
                  (drop (nat (wrap64 ((Page f - 1) * PageSize f)))
                  (sort_key (\<lambda>r. - Timestamp r) (filter (matches rx q) (docs c))))),
             Total = int (length (filter (matches rx q) (docs c))),
             rsp_Page = Page f, rsp_PageSize = PageSize f,
             TotalPages =
               CalculateTotalPages (int (length (filter (matches rx q) (docs c)))) (PageSize f)\<rparr>"
  unfolding run_query_def CountDocuments_def Find_def
  by (cases "available c"; cases "0 \<le> wrap64 ((Page f - 1) * PageSize f)"; auto)

text \<open>
  The query returns whenever the store is reachable and the skip, after wrapping to 64
  bits, is not negative.
\<close>

lemma run_query_succeeds:
  "available c \<Longrightarrow> 0 \<le> wrap64 ((Page f - 1) * PageSize f) \<Longrightarrow>
     \<exists>resp. run_query rx c q f = Inr resp"
  by (simp add: run_query_def CountDocuments_def Find_def)

lemma sorted_desc_sort_key:
  "sorted_wrt (\<lambda>a b. Timestamp b \<le> Timestamp a) (sort_key (\<lambda>r. - Timestamp r) xs)"
proof -
  have "sorted (map (\<lambda>r. - Timestamp r) (sort_key (\<lambda>r. - Timestamp r) xs))"
    by (rule sorted_sort_key)
  then show ?thesis
    by (simp add: sorted_map)
qed

lemma sorted_wrt_limit_docs:
  "sorted_wrt P xs \<Longrightarrow> sorted_wrt P (limit_docs n xs)"
  by (simp add: limit_docs_def sorted_wrt_take)

lemma set_limit_docs: "set (limit_docs n xs) \<subseteq> set xs"
  by (auto simp: limit_docs_def dest: in_set_takeD)

lemma length_limit_docs: "0 < n \<Longrightarrow> int (length (limit_docs n xs)) \<le> n"
  by (simp add: limit_docs_def)

lemma limit_docs_take: "0 < n \<Longrightarrow> limit_docs n xs = take (nat n) xs"
  by (simp add: limit_docs_def)

text \<open>When the shared tail of \<^verbatim>\<open>List\<close> and \<^verbatim>\<open>SearchLogs\<close> returns, and what.\<close>

lemma run_query_iff:
  "run_query rx c q f = Inr resp \<longleftrightarrow>
     available c \<and> 0 \<le> wrap64 ((Page f - 1) * PageSize f) \<and>
     resp = \<lparr>Logs = map ToResponse (limit_docs (PageSize f)
                  (drop (nat (wrap64 ((Page f - 1) * PageSize f)))
                  (sort_key (\<lambda>r. - Timestamp r) (filter (matches rx q) (docs c))))),
             Total = int (length (filter (matches rx q) (docs c))),
             rsp_Page = Page f, rsp_PageSize = PageSize f,
             TotalPages =
               CalculateTotalPages (int (length (filter (matches rx q) (docs c)))) (PageSize f)\<rparr>"
  unfolding run_query_def CountDocuments_def Find_def
  by (cases "available c"; cases "0 \<le> wrap64 ((Page f - 1) * PageSize f)"; auto)

text \<open>
  C7. Whatever the filter, a response of \<^verbatim>\<open>List\<close> holds only records whose
  timestamp is at or after the start date and at or before the end date, whichever of
  the two are supplied; the records are in descending timestamp order; the page echoed
  in the response is the effective one and is at least 1; the page size echoed is the
  effective one, lies between 1 and 100, and bounds the number of records returned.
\<close>

theorem List_range_sorted_paged:
  assumes "List rx enc c f = Inr resp"
  shows "(\<forall>l \<in> set (Logs resp).
            (\<forall>t1. StartDate f = Some t1 \<longrightarrow> t1 \<le> rsp_Timestamp l) \<and>
            (\<forall>t2. EndDate f = Some t2 \<longrightarrow> rsp_Timestamp l \<le> t2)) \<and>
         sorted_wrt (\<lambda>a b. rsp_Timestamp b \<le> rsp_Timestamp a) (Logs resp) \<and>
         1 \<le> rsp_Page resp \<and> 1 \<le> rsp_PageSize resp \<and> rsp_PageSize resp \<le> 100 \<and>
         rsp_Page resp = (if Page f \<le> 0 then 1 else Page f) \<and>
         rsp_PageSize resp = PageSize (set_defaults f) \<and>
         int (length (Logs resp)) \<le> rsp_PageSize resp"
proof -
  let ?g = "set_defaults f"
  let ?q = "buildLogFilter enc ?g"
  let ?sorted = "sort_key (\<lambda>r. - Timestamp r) (filter (matches rx ?q) (docs c))"
  let ?page = "limit_docs (PageSize ?g) (drop (nat (wrap64 ((Page ?g - 1) * PageSize ?g))) ?sorted)"
  from assms have rq: "run_query rx c ?q ?g = Inr resp"
    by (simp add: List_def Let_def)
  from run_query_Inr [OF rq] have logs: "Logs resp = map ToResponse ?page"
    and pg: "rsp_Page resp = Page ?g" and ps: "rsp_PageSize resp = PageSize ?g"
    by simp_all
  have sub: "set ?page \<subseteq> {r \<in> set (docs c). matches rx ?q r}"
    using set_limit_docs [of "PageSize ?g"] set_drop_subset by fastforce
  have range: "\<forall>l \<in> set (Logs resp).
            (\<forall>t1. StartDate f = Some t1 \<longrightarrow> t1 \<le> rsp_Timestamp l) \<and>
            (\<forall>t2. EndDate f = Some t2 \<longrightarrow> rsp_Timestamp l \<le> t2)"
  proof
    fix l assume "l \<in> set (Logs resp)"
    then obtain r where r: "r \<in> set ?page" and l: "l = ToResponse r"
      by (auto simp: logs)
    from r sub have "matches rx (buildLogFilter enc f) r"
      by (auto simp: buildLogFilter_set_defaults)
    then show "(\<forall>t1. StartDate f = Some t1 \<longrightarrow> t1 \<le> rsp_Timestamp l) \<and>
            (\<forall>t2. EndDate f = Some t2 \<longrightarrow> rsp_Timestamp l \<le> t2)"
      by (simp add: matches_buildLogFilter l ToResponse_def)
  qed
  have "sorted_wrt (\<lambda>a b. Timestamp b \<le> Timestamp a) ?page"
    by (intro sorted_wrt_limit_docs sorted_wrt_drop sorted_desc_sort_key)
  then have srt: "sorted_wrt (\<lambda>a b. rsp_Timestamp b \<le> rsp_Timestamp a) (Logs resp)"
    by (simp add: logs sorted_wrt_map ToResponse_def)
  have bounds: "1 \<le> Page ?g" "1 \<le> PageSize ?g" "PageSize ?g \<le> 100"
    by (simp_all add: set_defaults_fields)
  have len: "int (length (Logs resp)) \<le> rsp_PageSize resp"
    using length_limit_docs [of "PageSize ?g"] bounds by (simp add: logs ps)
  show ?thesis
    using range srt bounds len by (simp add: pg ps set_defaults_fields)
qed

theorem List_range_sorted_paged_witness:
  "List literal_regex VBinary ex_coll (ex_filter 0 150) =
     Inr \<lparr>Logs = [ToResponse (ex_log 9), ToResponse (ex_log 5)], Total = 2, rsp_Page = 1,
          rsp_PageSize = 10, TotalPages = 1\<rparr> \<and>
   rsp_Timestamp (ToResponse (ex_log 9)) \<le> 20 \<and> 3 \<le> rsp_Timestamp (ToResponse (ex_log 5))"
proof -
  have run: "List literal_regex VBinary ex_coll (ex_filter 0 150) =
     Inr \<lparr>Logs = [ToResponse (ex_log 9), ToResponse (ex_log 5)], Total = 2, rsp_Page = 1,
          rsp_PageSize = 10, TotalPages = 1\<rparr>"
    by (simp add: List_def set_defaults_def run_query_def CountDocuments_def Find_def
        buildLogFilter_def ex_coll_def ex_filter_def ex_log_def fieldOf_def limit_docs_def
        wrap64_def CalculateTotalPages_def go_div_def)
  show ?thesis
    using List_range_sorted_paged [OF run] run by (simp add: ex_filter_def)
qed

text \<open>
  C9. In \<^verbatim>\<open>List\<close> and in \<^verbatim>\<open>SearchLogs\<close> a requested page size that is
  zero, negative or above 100 is replaced by 10, not by the nearest bound, and a
  requested page size from 1 to 100 is kept. Each of the two returns exactly when the
  store is reachable and the skip is not negative, and then with that page size: it is
  echoed in the response and is the number of records taken, after the skip, from the
  matching records in descending timestamp order.
\<close>

theorem pageSize_out_of_range_becomes_default:
  "(let ps = (if PageSize f \<le> 0 \<or> 100 < PageSize f then 10 else PageSize f);
        pg = (if Page f \<le> 0 then 1 else Page f);
        skip = wrap64 ((pg - 1) * ps);
        response = (\<lambda>q.
          \<lparr>Logs = map ToResponse
                    (take (nat ps) (drop (nat skip)
                       (sort_key (\<lambda>r. - Timestamp r) (filter (matches rx q) (docs c))))),
           Total = int (length (filter (matches rx q) (docs c))),
           rsp_Page = pg, rsp_PageSize = ps,
           TotalPages = CalculateTotalPages (int (length (filter (matches rx q) (docs c)))) ps\<rparr>)
    in 1 \<le> ps \<and> ps \<le> 100 \<and>
       (List rx enc c f = Inr resp \<longleftrightarrow>
          available c \<and> 0 \<le> skip \<and> resp = response (buildLogFilter enc f)) \<and>
       (SearchLogs rx enc c searchTerm f = Inr resp' \<longleftrightarrow>
          available c \<and> 0 \<le> skip \<and> resp' = response (combinedFilter enc searchTerm f)))"
proof -
  let ?g = "set_defaults f"
  have ps: "0 < PageSize ?g"
    by (simp add: set_defaults_fields)
  have cf: "combinedFilter enc searchTerm ?g = combinedFilter enc searchTerm f"
    by (simp add: combinedFilter_def buildLogFilter_set_defaults)
  have l: "List rx enc c f = run_query rx c (buildLogFilter enc f) ?g"
    by (simp add: List_def Let_def buildLogFilter_set_defaults)
  have s: "SearchLogs rx enc c searchTerm f = run_query rx c (combinedFilter enc searchTerm f) ?g"
    by (simp add: SearchLogs_def Let_def cf)
  show ?thesis
    unfolding Let_def l s run_query_iff limit_docs_take [OF ps]
    by (simp add: set_defaults_fields)
qed

theorem pageSize_out_of_range_becomes_default_witness:
  "map_sum id (\<lambda>resp. (rsp_PageSize resp, length (Logs resp)))
     (List literal_regex VBinary ex_coll12 (ex_filter 1 150\<lparr>StartDate := None\<rparr>)) =
     Inr (10, 10) \<and>
   map_sum id (\<lambda>resp. (rsp_PageSize resp, length (Logs resp)))
     (SearchLogs literal_regex VBinary ex_coll12 ''login'' (ex_filter 1 150\<lparr>StartDate := None\<rparr>)) =
     Inr (10, 10)"
proof -
  let ?f = "ex_filter 1 150\<lparr>StartDate := None\<rparr>"
  have hit: "literal_regex ''login'' ''i'' ''USER_LOGIN''"
    by code_simp
  have av: "available ex_coll12"
    by (simp add: ex_coll12_def)
  have f: "PageSize ?f = 150" "Page ?f = 1"
    by (simp_all add: ex_filter_def)
  have l1: "length (take 10 (drop 0 (sort_key (\<lambda>r. - Timestamp r)
              (filter (matches literal_regex (buildLogFilter VBinary ?f)) (docs ex_coll12))))) = 10"
    by (simp add: buildLogFilter_def ex_filter_def ex_coll12_def ex_log_def fieldOf_def)
  have l2: "length (take 10 (drop 0 (sort_key (\<lambda>r. - Timestamp r)
              (filter (matches literal_regex (combinedFilter VBinary ''login'' ?f))
                 (docs ex_coll12))))) = 10"
    by (simp add: combinedFilter_def searchFilter_def buildLogFilter_def ex_filter_def
          ex_coll12_def ex_log_def fieldOf_def hit)
  have sk: "wrap64 0 = 0"
    by (simp add: wrap64_def)
  obtain resp where 1: "List literal_regex VBinary ex_coll12 ?f = Inr resp"
    using run_query_succeeds [OF av, of "set_defaults ?f" literal_regex "buildLogFilter VBinary (set_defaults ?f)"]
    by (auto simp: List_def Let_def set_defaults_fields f wrap64_def)
  obtain resp' where 2: "SearchLogs literal_regex VBinary ex_coll12 ''login'' ?f = Inr resp'"
    using run_query_succeeds [OF av, of "set_defaults ?f" literal_regex
        "combinedFilter VBinary ''login'' (set_defaults ?f)"]
    by (auto simp: SearchLogs_def Let_def set_defaults_fields f wrap64_def)
  note t = pageSize_out_of_range_becomes_default [where f = ?f and rx = literal_regex and enc = VBinary and c = ex_coll12
      and resp = resp and searchTerm = "''login''" and resp' = resp', unfolded Let_def f 1 2]
  from t have "rsp_PageSize resp = 10 \<and> length (Logs resp) = 10"
    using l1 by (simp add: sk)
  moreover from t have "rsp_PageSize resp' = 10 \<and> length (Logs resp') = 10"
    using l2 by (simp add: sk)
  ultimately show ?thesis
    unfolding 1 2 by simp
qed

section \<open>Properties of searching and of event statistics\<close>

lemma matches_searchFilter: "matches rx (searchFilter t) r = search_hit rx t r"
  by (simp add: searchFilter_def search_hit_def fieldOf_def)

lemma matches_combinedFilter:
  "matches rx (combinedFilter enc t f) r =
     (matches rx (buildLogFilter enc f) r \<and> search_hit rx t r)"
  unfolding combinedFilter_def using matches_searchFilter [of rx t r] by simp

lemma fold_upd_lookup:
  "distinct (map fst kvs) \<Longrightarrow>
   fold (\<lambda>res stats. stats(fst res \<mapsto> snd res)) kvs m k =
     (case map_of kvs k of None \<Rightarrow> m k | Some v \<Rightarrow> Some v)"
proof (induction kvs arbitrary: m)
  case Nil
  then show ?case by simp
next
  case (Cons kv kvs)
  then show ?case
    by (cases kv) (auto split: option.splits simp: map_of_eq_None_iff rev_image_eqI)
qed

lemma map_of_group_by_event:
  "map_of (group_by_event ms) k =
     (if k \<in> Event ` set ms then Some (int (length (filter (\<lambda>r. Event r = k) ms))) else None)"
  by (simp add: group_by_event_def map_of_map_restrict restrict_map_def)

lemma distinct_group_by_event: "distinct (map fst (group_by_event ms))"
  by (simp add: group_by_event_def comp_def)

lemma matches_matchStage:
  "matches rx (Fields ([(''timestamp'', Range (Some (AddDate_days now (- days))) None)] @
                    (case userID of None \<Rightarrow> [] | Some u \<Rightarrow> [(''user_id'', Equals (enc u))]))) r
    = (AddDate_days now (- days) \<le> Timestamp r \<and>
       (\<forall>u. userID = Some u \<longrightarrow> map_option VString (UserID r) = Some (enc u)))"
  by (cases userID) (simp_all add: fieldOf_def)

text \<open>
  C3 (amended). For every search term, \<^verbatim>\<open>SearchLogs\<close> returns exactly when the
  store is reachable and the skip is not negative; it counts exactly the records for
  which the base filter holds and the term matches, under the store's case-insensitive
  regular-expression match, the event kind, the action, the error text or the client
  address; and the list it returns is the requested page of exactly those records in
  descending timestamp order. When they all fit on the first page, a record is returned
  exactly when that condition holds for it.
\<close>

theorem SearchLogs_four_fields:
  "(SearchLogs rx enc c searchTerm f = Inr resp \<longleftrightarrow>
      available c \<and>
      0 \<le> wrap64 ((Page (set_defaults f) - 1) * PageSize (set_defaults f)) \<and>
      resp =
        \<lparr>Logs = map ToResponse
                  (take (nat (PageSize (set_defaults f)))
                    (drop (nat (wrap64 ((Page (set_defaults f) - 1) * PageSize (set_defaults f))))
                      (sort_key (\<lambda>r. - Timestamp r)
                        (filter (\<lambda>r. matches rx (buildLogFilter enc f) r \<and> search_hit rx searchTerm r)
                           (docs c))))),
         Total = int (length (filter (\<lambda>r. matches rx (buildLogFilter enc f) r \<and>
                                         search_hit rx searchTerm r) (docs c))),
         rsp_Page = Page (set_defaults f), rsp_PageSize = PageSize (set_defaults f),
         TotalPages =
           CalculateTotalPages
             (int (length (filter (\<lambda>r. matches rx (buildLogFilter enc f) r \<and>
                                       search_hit rx searchTerm r) (docs c))))
             (PageSize (set_defaults f))\<rparr>) \<and>
   (SearchLogs rx enc c searchTerm f = Inr resp \<and> Page (set_defaults f) = 1 \<and>
    int (length (filter (\<lambda>r. matches rx (buildLogFilter enc f) r \<and> search_hit rx searchTerm r)
                   (docs c))) \<le> PageSize (set_defaults f) \<longrightarrow>
      set (Logs resp) =
        ToResponse ` {r \<in> set (docs c). matches rx (buildLogFilter enc f) r \<and>
                                          search_hit rx searchTerm r})"
proof -
  let ?g = "set_defaults f"
  let ?P = "\<lambda>r. matches rx (buildLogFilter enc f) r \<and> search_hit rx searchTerm r"
  let ?hits = "filter ?P (docs c)"
  have q: "matches rx (combinedFilter enc searchTerm ?g) = ?P"
    by (rule ext) (simp only: matches_combinedFilter buildLogFilter_set_defaults)
  have ps: "0 < PageSize ?g"
    by (simp add: set_defaults_fields)
  have iff: "SearchLogs rx enc c searchTerm f = Inr resp \<longleftrightarrow>
      available c \<and> 0 \<le> wrap64 ((Page ?g - 1) * PageSize ?g) \<and>
      resp =
        \<lparr>Logs = map ToResponse
                  (take (nat (PageSize ?g))
                    (drop (nat (wrap64 ((Page ?g - 1) * PageSize ?g)))
                      (sort_key (\<lambda>r. - Timestamp r) ?hits))),
         Total = int (length ?hits),
         rsp_Page = Page ?g, rsp_PageSize = PageSize ?g,
         TotalPages = CalculateTotalPages (int (length ?hits)) (PageSize ?g)\<rparr>"
    unfolding SearchLogs_def Let_def run_query_iff q limit_docs_take [OF ps] ..
  have all: "SearchLogs rx enc c searchTerm f = Inr resp \<and> Page ?g = 1 \<and>
       int (length ?hits) \<le> PageSize ?g \<longrightarrow>
      set (Logs resp) = ToResponse ` {r \<in> set (docs c). ?P r}"
  proof
    assume h: "SearchLogs rx enc c searchTerm f = Inr resp \<and> Page ?g = 1 \<and>
       int (length ?hits) \<le> PageSize ?g"
    then have "Logs resp = map ToResponse (take (nat (PageSize ?g))
                    (drop (nat (wrap64 ((Page ?g - 1) * PageSize ?g)))
                      (sort_key (\<lambda>r. - Timestamp r) ?hits)))"
      using iff by simp
    moreover from h have "wrap64 ((Page ?g - 1) * PageSize ?g) = 0"
      by (simp add: wrap64_def)
    moreover from h have "length (sort_key (\<lambda>r. - Timestamp r) ?hits) \<le> nat (PageSize ?g)"
      by (simp del: filter_filter) arith
    ultimately have "Logs resp = map ToResponse (sort_key (\<lambda>r. - Timestamp r) ?hits)"
      by simp
    then show "set (Logs resp) = ToResponse ` {r \<in> set (docs c). ?P r}"
      by auto
  qed
  from iff all show ?thesis
    by blast
qed

lemma ex_regex_facts:
  "literal_regex ''192'' ''i'' ''192.168.0.1''"
  "\<not> literal_regex ''192'' ''i'' ''USER_LOGIN''"
  "\<not> literal_regex ''192'' ''i'' ''login''"
  "\<not> literal_regex ''192'' ''i'' []"
  by code_simp+

text \<open>
  A search for \<^verbatim>\<open>192\<close> returns records whose event kind, action and error text do
  not contain it: it occurs in their client address only.
\<close>

theorem SearchLogs_client_address_counterexample:
  "SearchLogs literal_regex VBinary ex_coll ''192'' ex_all =
     Inr \<lparr>Logs = [ToResponse (ex_log 30), ToResponse (ex_log 9), ToResponse (ex_log 5),
                  ToResponse (ex_log 1)],
          Total = 4, rsp_Page = 1, rsp_PageSize = 10, TotalPages = 1\<rparr> \<and>
   \<not> literal_regex ''192'' ''i'' (Event (ex_log 30)) \<and>
   \<not> literal_regex ''192'' ''i'' (Action (Data (ex_log 30))) \<and>
   \<not> literal_regex ''192'' ''i'' (Error (Data (ex_log 30)))"
  by (simp add: SearchLogs_def set_defaults_def run_query_def CountDocuments_def Find_def
        combinedFilter_def searchFilter_def
        buildLogFilter_def ex_coll_def ex_all_def ex_log_def fieldOf_def limit_docs_def
        wrap64_def CalculateTotalPages_def go_div_def ex_regex_facts)

theorem SearchLogs_four_fields_witness:
  "SearchLogs literal_regex VBinary ex_coll ''LOGIN'' (ex_filter 1 2) =
     Inr \<lparr>Logs = [ToResponse (ex_log 9), ToResponse (ex_log 5)],
          Total = 2, rsp_Page = 1, rsp_PageSize = 2, TotalPages = 1\<rparr> \<and>
   search_hit literal_regex ''LOGIN'' (ex_log 9) \<and> search_hit literal_regex ''LOGIN'' (ex_log 5) \<and>
   \<not> matches literal_regex (buildLogFilter VBinary (ex_filter 1 2)) (ex_log 30)"
proof -
  have hit: "literal_regex ''LOGIN'' ''i'' ''USER_LOGIN''"
    by code_simp
  from SearchLogs_four_fields [of literal_regex VBinary ex_coll "''LOGIN''" "ex_filter 1 2"
      "\<lparr>Logs = [ToResponse (ex_log 9), ToResponse (ex_log 5)],
          Total = 2, rsp_Page = 1, rsp_PageSize = 2, TotalPages = 1\<rparr>"]
  show ?thesis
    by (simp add: set_defaults_def search_hit_def buildLogFilter_def ex_coll_def ex_filter_def
          ex_log_def fieldOf_def wrap64_def CalculateTotalPages_def go_div_def hit)
qed

lemma GetEventStats_succeeds:
  "available c \<Longrightarrow> \<exists>stats. GetEventStats rx enc c now userID days = Inr stats"
  by (simp add: GetEventStats_def Aggregate_def Let_def)

lemma GetEventStats_lookup:
  assumes "GetEventStats rx enc c now userID days = Inr stats"
  shows "stats k =
     (if \<exists>r \<in> set (docs c). (AddDate_days now (- days) \<le> Timestamp r \<and>
             (\<forall>u. userID = Some u \<longrightarrow> map_option VString (UserID r) = Some (enc u))) \<and> Event r = k
      then Some (int (length (filter (\<lambda>r. (AddDate_days now (- days) \<le> Timestamp r \<and>
             (\<forall>u. userID = Some u \<longrightarrow> map_option VString (UserID r) = Some (enc u))) \<and> Event r = k)
                (docs c))))
      else None)"
proof -
  let ?M = "\<lambda>r. AddDate_days now (- days) \<le> Timestamp r \<and>
             (\<forall>u. userID = Some u \<longrightarrow> map_option VString (UserID r) = Some (enc u))"
  let ?ms = "filter ?M (docs c)"
  have m: "matches rx (Fields ([(''timestamp'', Range (Some (AddDate_days now (- days))) None)] @
                    (case userID of None \<Rightarrow> [] | Some u \<Rightarrow> [(''user_id'', Equals (enc u))])))
            = ?M"
    by (rule ext) (rule matches_matchStage)
  from assms have "stats = fold (\<lambda>res stats. stats(fst res \<mapsto> snd res)) (group_by_event ?ms) Map.empty"
    unfolding GetEventStats_def Aggregate_def Let_def m
    by (cases "available c") auto
  then have "stats k = map_of (group_by_event ?ms) k"
    by (simp add: fold_upd_lookup [OF distinct_group_by_event] split: option.splits)
  also have "\<dots> = (if k \<in> Event ` set ?ms then Some (int (length (filter (\<lambda>r. Event r = k) ?ms))) else None)"
    by (rule map_of_group_by_event)
  also have "filter (\<lambda>r. Event r = k) ?ms = filter (\<lambda>r. ?M r \<and> Event r = k) (docs c)"
    by (simp add: conj_commute)
  also have "k \<in> Event ` set ?ms \<longleftrightarrow> (\<exists>r \<in> set (docs c). ?M r \<and> Event r = k)"
    by auto
  finally show ?thesis .
qed

text \<open>
  Without an actor, the mapping has an entry for an event kind exactly when a record in
  the window has that kind, and the entry is the number of such records.
\<close>

lemma GetEventStats_unscoped:
  assumes "GetEventStats rx enc c now None days = Inr stats"
  shows "stats k =
     (if \<exists>r \<in> set (docs c). in_scope now None days r \<and> Event r = k
      then Some (int (length (filter (\<lambda>r. in_scope now None days r \<and> Event r = k) (docs c))))
      else None)"
  using GetEventStats_lookup [OF assms, of k] by (simp add: in_scope_def)

text \<open>
  With an actor, the filter asks for a stored user id equal to binary data; a stored user
  id is a string, so no record matches and the mapping is empty.
\<close>

lemma GetEventStats_actor_always_empty:
  assumes "GetEventStats rx driver_enc c now (Some u) days = Inr stats"
  shows "stats = Map.empty"
proof (rule ext)
  fix k
  show "stats k = None"
    unfolding GetEventStats_lookup [OF assms, of k] by (simp add: driver_enc_def)
qed

text \<open>
  C8. The store holds three records of one actor inside the last seven days, two of them
  of kind \<^verbatim>\<open>USER_LOGIN\<close>. Asked for that actor's statistics over seven days,
  \<^verbatim>\<open>GetEventStats\<close> returns the empty mapping.
\<close>

theorem GetEventStats_actor_scope_empty:
  "GetEventStats literal_regex driver_enc ex_coll_stats 864000000 (Some ex_actor2) 7 =
     Inr Map.empty \<and>
   length (filter (\<lambda>r. in_scope 864000000 (Some ex_actor2) 7 r \<and> Event r = ''USER_LOGIN'')
             (docs ex_coll_stats)) = 2"
proof -
  have av: "available ex_coll_stats"
    by (simp add: ex_coll_stats_def)
  from GetEventStats_succeeds [OF av]
  obtain stats where r: "GetEventStats literal_regex driver_enc ex_coll_stats 864000000
      (Some ex_actor2) 7 = Inr stats"
    by blast
  from GetEventStats_actor_always_empty [OF r] r
  have "GetEventStats literal_regex driver_enc ex_coll_stats 864000000 (Some ex_actor2) 7 =
     Inr Map.empty"
    by simp
  moreover have "length (filter (\<lambda>r. in_scope 864000000 (Some ex_actor2) 7 r \<and> Event r = ''USER_LOGIN'')
             (docs ex_coll_stats)) = 2"
    by (simp add: ex_coll_stats_def in_scope_def ex_event_def ex_log_def AddDate_days_def
          ex_actor1_def ex_actor2_def)
  ultimately show ?thesis
    by simp
qed

section \<open>Properties of the ingestion pipeline\<close>

lemma step_inv:
  assumes "step ev now r = Some r'"
    and "length (logChannel r) \<le> logChannel_cap" and "length (batch r) < 10"
  shows "length (logChannel r') \<le> logChannel_cap \<and> length (batch r') < 10"
proof (cases ev)
  case (Submit e)
  with assms show ?thesis
    by (auto simp: CreateAsync_def Let_def split: if_splits sum.splits)
next
  case (Worker s)
  with assms show ?thesis
    by (cases s) (auto simp: Let_def split: if_splits list.splits)
next
  case CloseBegin
  with assms show ?thesis by (auto split: if_splits)
next
  case CloseEnd
  with assms show ?thesis by (auto split: if_splits)
next
  case (StoreAvailable b)
  with assms show ?thesis by auto
qed

lemma reachable_inv:
  "reachable r \<Longrightarrow> length (logChannel r) \<le> logChannel_cap \<and> length (batch r) < 10"
proof (induction rule: reachable.induct)
  case (reach_init c)
  show ?case by (simp add: NewUserLogRepository_def)
next
  case (reach_step r ev now r')
  then show ?case using step_inv by blast
qed

lemma run_reachable: "reachable r \<Longrightarrow> run ets r = Some r' \<Longrightarrow> reachable r'"
proof (induction ets arbitrary: r)
  case Nil
  then show ?case by simp
next
  case (Cons et ets)
  then obtain r1 where s: "step (fst et) (snd et) r = Some r1" and rest: "run ets r1 = Some r'"
    by (auto split: option.splits)
  from Cons.prems(1) s have "reachable r1"
    by (rule reachable.reach_step)
  with rest show ?case
    by (rule Cons.IH [rotated])
qed

lemma stamp_stamp: "stamp now (stamp now e) = stamp now e"
  by (simp add: stamp_def)

lemma worker_step_Stop_keeps_queue:
  "worker_step Stop now r = Some r' \<Longrightarrow> logChannel r' = logChannel r \<and> wg r' = 0"
  by (auto split: if_splits)

text \<open>
  C5. In every reachable state of the pipeline the queue holds at most 1000 records and
  the worker's batch at most 10. When a received record brings the batch to 10, that
  same iteration hands the ten records to the store in one bulk write and resets the
  batch, without a timer tick.
\<close>

theorem queue_and_batch_bounded:
  assumes "reachable r"
  shows "length (logChannel r) \<le> 1000 \<and> length (batch r) \<le> 10 \<and>
         (\<forall>logEntry rest now.
            0 < wg r \<and> logChannel r = logEntry # rest \<and> length (batch r @ [logEntry]) = 10 \<longrightarrow>
              worker_step RecvLog now r =
                Some (r\<lparr>logChannel := rest, batch := [],
                        collection := processBatch (collection r) now (batch r @ [logEntry])\<rparr>) \<and>
              (available (collection r) \<longrightarrow>
                 docs (processBatch (collection r) now (batch r @ [logEntry])) =
                   docs (collection r) @ map (stamp now) (batch r @ [logEntry])))"
proof -
  from reachable_inv [OF assms]
  have "length (logChannel r) \<le> 1000" and "length (batch r) \<le> 10"
    by (simp_all add: logChannel_cap_def)
  moreover have "\<forall>logEntry rest now.
            0 < wg r \<and> logChannel r = logEntry # rest \<and> length (batch r @ [logEntry]) = 10 \<longrightarrow>
              worker_step RecvLog now r =
                Some (r\<lparr>logChannel := rest, batch := [],
                        collection := processBatch (collection r) now (batch r @ [logEntry])\<rparr>) \<and>
              (available (collection r) \<longrightarrow>
                 docs (processBatch (collection r) now (batch r @ [logEntry])) =
                   docs (collection r) @ map (stamp now) (batch r @ [logEntry]))"
    by (simp add: processBatch_def BulkCreate_def InsertMany_def)
  ultimately show ?thesis
    by blast
qed

theorem queue_and_batch_bounded_witness:
  "run ex_nine_events (NewUserLogRepository ex_empty) = Some ex_nine \<and>
   length (batch ex_nine) \<le> 10 \<and>
   worker_step RecvLog 11 ex_nine =
     Some (ex_nine\<lparr>logChannel := [], batch := [],
             collection := \<lparr>docs = map ex_log [1, 2, 3, 4, 5, 6, 7, 8, 9, 10], available = True\<rparr>\<rparr>)"
proof -
  have run: "run ex_nine_events (NewUserLogRepository ex_empty) = Some ex_nine"
    by (simp add: ex_nine_events_def ex_nine_def NewUserLogRepository_def CreateAsync_def
          stamp_def IsZero_def zero_time_def ex_log_def logChannel_cap_def ex_empty_def)
  have "reachable ex_nine"
    using run_reachable [OF reachable.reach_init run] .
  from queue_and_batch_bounded [OF this]
  show ?thesis
    using run
    by (simp add: ex_nine_def processBatch_def BulkCreate_def InsertMany_def stamp_def
          IsZero_def zero_time_def ex_log_def ex_empty_def)
qed

text \<open>
  C1. A record is submitted and enqueued; \<^verbatim>\<open>Close\<close> follows and the worker's
  \<^verbatim>\<open>select\<close> takes the stop case. \<^verbatim>\<open>Close\<close> returns with the store empty and
  the record still in the closed channel.
\<close>

theorem Close_leaves_queue_undrained:
  "CreateAsync (NewUserLogRepository ex_empty) 100 (ex_log 5) =
     (NoError, (NewUserLogRepository ex_empty)\<lparr>logChannel := [ex_log 5]\<rparr>) \<and>
   Close [Stop] 200 ((NewUserLogRepository ex_empty)\<lparr>logChannel := [ex_log 5]\<rparr>) =
     Some \<lparr>collection = \<lparr>docs = [], available = True\<rparr>, logChannel = [ex_log 5],
           logChannel_closed = True, stopChan_closed = True, batch = [], wg = 0\<rparr>"
  by (simp add: CreateAsync_def NewUserLogRepository_def Close_def stamp_def IsZero_def
        zero_time_def ex_log_def logChannel_cap_def ex_empty_def)

text \<open>
  C2 (amended). While the channel is open, \<^verbatim>\<open>CreateAsync\<close> enqueues the record
  and returns \<^verbatim>\<open>nil\<close> when the queue has room; on a full queue it writes that one
  record to the store and returns \<^verbatim>\<open>nil\<close> when the write succeeds; and it returns
  an error to its caller in exactly one case, a full queue with a failing fallback write.
\<close>

theorem CreateAsync_outcome:
  assumes "\<not> logChannel_closed r" and "CreateAsync r now logEntry = (res, r')"
  shows "(length (logChannel r) < 1000 \<longrightarrow>
            res = NoError \<and> logChannel r' = logChannel r @ [stamp now logEntry] \<and>
            collection r' = collection r) \<and>
         (1000 \<le> length (logChannel r) \<and> available (collection r) \<longrightarrow>
            res = NoError \<and> logChannel r' = logChannel r \<and>
            docs (collection r') = docs (collection r) @ [stamp now logEntry]) \<and>
         (1000 \<le> length (logChannel r) \<and> \<not> available (collection r) \<longrightarrow>
            res = Err FailedToCreate) \<and>
         ((\<exists>e. res = Err e) \<longleftrightarrow>
            1000 \<le> length (logChannel r) \<and> \<not> available (collection r)) \<and>
         res \<noteq> Panic"
  using assms
  by (auto simp: CreateAsync_def Let_def Create_def InsertOne_def stamp_stamp logChannel_cap_def
        split: if_splits)

lemma fill_queue:
  "n \<le> 1000 \<Longrightarrow>
   ((\<lambda>r. snd (CreateAsync r 1 (ex_log 1))) ^^ n) (NewUserLogRepository c) =
     (NewUserLogRepository c)\<lparr>logChannel := replicate n (ex_log 1)\<rparr>"
proof (induction n)
  case 0
  show ?case by (simp add: NewUserLogRepository_def)
next
  case (Suc n)
  then show ?case
    by (simp add: CreateAsync_def Let_def logChannel_cap_def NewUserLogRepository_def stamp_def
          IsZero_def zero_time_def ex_log_def replicate_append_same)
qed

text \<open>
  With 1000 records queued and the store unreachable, \<^verbatim>\<open>CreateAsync\<close> returns an
  error.
\<close>

theorem CreateAsync_returns_fallback_error_counterexample:
  "CreateAsync ex_full 5 (ex_log 7) = (Err FailedToCreate, ex_full)"
proof -
  have full: "ex_full = (NewUserLogRepository ex_down)\<lparr>logChannel := replicate 1000 (ex_log 1)\<rparr>"
    unfolding ex_full_def by (rule fill_queue) simp
  show ?thesis
    unfolding full
    by (simp add: CreateAsync_def Let_def logChannel_cap_def NewUserLogRepository_def Create_def
          InsertOne_def ex_down_def)
qed

theorem CreateAsync_outcome_witness:
  "CreateAsync ((NewUserLogRepository ex_empty)\<lparr>logChannel := replicate 1000 (ex_log 1)\<rparr>) 5
       (ex_log 7) =
     (NoError, (NewUserLogRepository ex_empty)
             \<lparr>logChannel := replicate 1000 (ex_log 1),
              collection := \<lparr>docs = [ex_log 7], available = True\<rparr>\<rparr>) \<and>
   fst (CreateAsync ((NewUserLogRepository ex_down)\<lparr>logChannel := replicate 1000 (ex_log 1)\<rparr>) 5
       (ex_log 7)) = Err FailedToCreate \<and>
   CreateAsync (NewUserLogRepository ex_down) 5 (ex_log 7) =
     (NoError, (NewUserLogRepository ex_down)\<lparr>logChannel := [ex_log 7]\<rparr>)"
proof -
  have 1: "CreateAsync ((NewUserLogRepository ex_empty)\<lparr>logChannel := replicate 1000 (ex_log 1)\<rparr>) 5
       (ex_log 7) =
     (NoError, (NewUserLogRepository ex_empty)
             \<lparr>logChannel := replicate 1000 (ex_log 1),
              collection := \<lparr>docs = [ex_log 7], available = True\<rparr>\<rparr>)"
    by (simp add: CreateAsync_def Let_def Create_def InsertOne_def logChannel_cap_def
          NewUserLogRepository_def ex_empty_def stamp_def IsZero_def zero_time_def ex_log_def)
  have c: "\<not> logChannel_closed ((NewUserLogRepository ex_empty)\<lparr>logChannel := replicate 1000 (ex_log 1)\<rparr>)"
    by (simp add: NewUserLogRepository_def)
  have 2: "fst (CreateAsync ((NewUserLogRepository ex_down)\<lparr>logChannel := replicate 1000 (ex_log 1)\<rparr>) 5
       (ex_log 7)) = Err FailedToCreate"
    by (simp add: CreateAsync_def Let_def Create_def InsertOne_def logChannel_cap_def
          NewUserLogRepository_def ex_down_def)
  have 3: "CreateAsync (NewUserLogRepository ex_down) 5 (ex_log 7) =
     (NoError, (NewUserLogRepository ex_down)\<lparr>logChannel := [ex_log 7]\<rparr>)"
    by (simp add: CreateAsync_def Let_def logChannel_cap_def
          NewUserLogRepository_def stamp_def IsZero_def zero_time_def ex_log_def)
  from CreateAsync_outcome [OF c 1] 1 2 3 show ?thesis
    by simp
qed

section \<open>Properties of the rate limiter\<close>

lemma rl_run_append:
  "rl_run (xs @ ys) rl =
     (case rl_run xs rl of
        None \<Rightarrow> None
      | Some (oks, rl') \<Rightarrow>
          (case rl_run ys rl' of None \<Rightarrow> None | Some (oks', rl'') \<Rightarrow> Some (oks @ oks', rl'')))"
  by (induction xs arbitrary: rl) (auto split: option.splits)

lemma Allow_present:
  "m ip = Some \<lparr>limiter = ts, lastSeen = s\<rparr> \<Longrightarrow>
   Allow \<lparr>visitors = m, rate = d, burst = b\<rparr> now ip =
     (if int (length ts) < b
      then Some (True, \<lparr>visitors = m(ip \<mapsto> \<lparr>limiter = ts @ [now + d], lastSeen = now\<rparr>),
                        rate = d, burst = b\<rparr>)
      else Some (False, \<lparr>visitors = m(ip \<mapsto> \<lparr>limiter = ts, lastSeen = now\<rparr>),
                         rate = d, burst = b\<rparr>))"
  by (simp add: Allow_def Let_def)

lemma Allow_absent:
  "m ip = None \<Longrightarrow> 0 \<le> b \<Longrightarrow>
   Allow \<lparr>visitors = m, rate = d, burst = b\<rparr> now ip =
     Allow \<lparr>visitors = m(ip \<mapsto> \<lparr>limiter = [], lastSeen = now\<rparr>), rate = d, burst = b\<rparr> now ip"
  by (simp add: Allow_def Let_def)

lemma Allow_returns: "0 \<le> burst rl \<Longrightarrow> \<exists>ok rl'. Allow rl now ip = Some (ok, rl')"
  by (cases "visitors rl ip") (auto simp: Allow_def Let_def)

lemma admitted_run:
  "m ip = Some \<lparr>limiter = ts, lastSeen = now\<rparr> \<Longrightarrow> int (length ts) + int n \<le> b \<Longrightarrow>
   rl_run (replicate n (Call ip, now)) \<lparr>visitors = m, rate = d, burst = b\<rparr> =
     Some (replicate n True,
           \<lparr>visitors = m(ip \<mapsto> \<lparr>limiter = ts @ replicate n (now + d), lastSeen = now\<rparr>),
            rate = d, burst = b\<rparr>)"
proof (induction n arbitrary: m ts)
  case 0
  then show ?case by (simp add: fun_upd_idem)
next
  case (Suc n)
  let ?m1 = "m(ip \<mapsto> \<lparr>limiter = ts @ [now + d], lastSeen = now\<rparr>)"
  from Suc.prems have a: "Allow \<lparr>visitors = m, rate = d, burst = b\<rparr> now ip =
      Some (True, \<lparr>visitors = ?m1, rate = d, burst = b\<rparr>)"
    by (simp add: Allow_present)
  have "rl_run (replicate n (Call ip, now)) \<lparr>visitors = ?m1, rate = d, burst = b\<rparr> =
     Some (replicate n True,
           \<lparr>visitors = ?m1(ip \<mapsto> \<lparr>limiter = (ts @ [now + d]) @ replicate n (now + d),
                                  lastSeen = now\<rparr>),
            rate = d, burst = b\<rparr>)"
    using Suc.prems by (intro Suc.IH) simp_all
  then show ?case
    by (simp add: a, (simp add: fun_upd_def)?)
qed

lemma rejected_step:
  "m ip = Some \<lparr>limiter = ts, lastSeen = s\<rparr> \<Longrightarrow> b \<le> int (length ts) \<Longrightarrow>
   rl_run [(Call ip, now)] \<lparr>visitors = m, rate = d, burst = b\<rparr> =
     Some ([False], \<lparr>visitors = m(ip \<mapsto> \<lparr>limiter = ts, lastSeen = now\<rparr>),
                     rate = d, burst = b\<rparr>)"
  by (simp add: Allow_present)

lemma burst_run_present:
  assumes "m ip = Some \<lparr>limiter = [], lastSeen = now\<rparr>" and "0 \<le> b"
  shows "rl_run (replicate (nat b + 1) (Call ip, now)) \<lparr>visitors = m, rate = d, burst = b\<rparr> =
     Some (replicate (nat b) True @ [False],
           \<lparr>visitors = m(ip \<mapsto> \<lparr>limiter = replicate (nat b) (now + d), lastSeen = now\<rparr>),
            rate = d, burst = b\<rparr>)"
proof -
  let ?m1 = "m(ip \<mapsto> \<lparr>limiter = [] @ replicate (nat b) (now + d), lastSeen = now\<rparr>)"
  from assms have 1: "rl_run (replicate (nat b) (Call ip, now)) \<lparr>visitors = m, rate = d, burst = b\<rparr> =
      Some (replicate (nat b) True, \<lparr>visitors = ?m1, rate = d, burst = b\<rparr>)"
    by (intro admitted_run) simp_all
  have 2: "rl_run [(Call ip, now)] \<lparr>visitors = ?m1, rate = d, burst = b\<rparr> =
     Some ([False], \<lparr>visitors = ?m1(ip \<mapsto> \<lparr>limiter = [] @ replicate (nat b) (now + d),
                                            lastSeen = now\<rparr>),
                     rate = d, burst = b\<rparr>)"
    using assms by (intro rejected_step) simp_all
  have "replicate (nat b + 1) (Call ip, now) = replicate (nat b) (Call ip, now) @ [(Call ip, now)]"
    by (simp add: replicate_append_same)
  then show ?thesis
    using 1 2 by (simp add: rl_run_append)
qed

lemma burst_run_fresh:
  assumes "m ip = None" and "0 \<le> b"
  shows "rl_run (replicate (nat b + 1) (Call ip, now)) \<lparr>visitors = m, rate = d, burst = b\<rparr> =
     Some (replicate (nat b) True @ [False],
           \<lparr>visitors = m(ip \<mapsto> \<lparr>limiter = replicate (nat b) (now + d), lastSeen = now\<rparr>),
            rate = d, burst = b\<rparr>)"
proof -
  let ?m0 = "m(ip \<mapsto> \<lparr>limiter = [], lastSeen = now\<rparr>)"
  have "rl_run (replicate (nat b + 1) (Call ip, now)) \<lparr>visitors = m, rate = d, burst = b\<rparr> =
        rl_run (replicate (nat b + 1) (Call ip, now)) \<lparr>visitors = ?m0, rate = d, burst = b\<rparr>"
    using assms by (simp add: Allow_absent [of m ip b d now])
  also have "\<dots> = Some (replicate (nat b) True @ [False],
           \<lparr>visitors = ?m0(ip \<mapsto> \<lparr>limiter = replicate (nat b) (now + d), lastSeen = now\<rparr>),
            rate = d, burst = b\<rparr>)"
    using assms by (intro burst_run_present) simp_all
  finally show ?thesis by simp
qed

lemma wakeups_run:
  "m ip = Some \<lparr>limiter = replicate n t, lastSeen = s\<rparr> \<Longrightarrow> t \<le> now \<Longrightarrow>
   rl_run (replicate n (Wakeup ip, now)) \<lparr>visitors = m, rate = d, burst = b\<rparr> =
     Some ([], \<lparr>visitors = m(ip \<mapsto> \<lparr>limiter = [], lastSeen = s\<rparr>), rate = d, burst = b\<rparr>)"
proof (induction n arbitrary: m)
  case 0
  then show ?case by (simp add: fun_upd_idem)
next
  case (Suc n)
  let ?m1 = "m(ip \<mapsto> \<lparr>limiter = replicate n t, lastSeen = s\<rparr>)"
  from Suc.prems have r: "release \<lparr>visitors = m, rate = d, burst = b\<rparr> now ip =
      Some \<lparr>visitors = ?m1, rate = d, burst = b\<rparr>"
    by (simp add: release_def)
  have "rl_run (replicate n (Wakeup ip, now)) \<lparr>visitors = ?m1, rate = d, burst = b\<rparr> =
     Some ([], \<lparr>visitors = ?m1(ip \<mapsto> \<lparr>limiter = [], lastSeen = s\<rparr>), rate = d, burst = b\<rparr>)"
    using Suc.prems(2) by (intro Suc.IH) simp_all
  then show ?case
    by (simp add: r, (simp add: fun_upd_def)?)
qed

lemma Allow_overwrites_lastSeen:
  "m ip = Some \<lparr>limiter = ts, lastSeen = s\<rparr> \<Longrightarrow>
   Allow \<lparr>visitors = m, rate = d, burst = b\<rparr> now ip =
     Allow \<lparr>visitors = m(ip \<mapsto> \<lparr>limiter = ts, lastSeen = now\<rparr>), rate = d, burst = b\<rparr> now ip"
  by (simp add: Allow_def Let_def)

lemma burst_run_empty:
  assumes "m ip = Some \<lparr>limiter = [], lastSeen = s\<rparr>" and "0 \<le> b"
  shows "rl_run (replicate (nat b + 1) (Call ip, now)) \<lparr>visitors = m, rate = d, burst = b\<rparr> =
     Some (replicate (nat b) True @ [False],
           \<lparr>visitors = m(ip \<mapsto> \<lparr>limiter = replicate (nat b) (now + d), lastSeen = now\<rparr>),
            rate = d, burst = b\<rparr>)"
proof -
  let ?m0 = "m(ip \<mapsto> \<lparr>limiter = [], lastSeen = now\<rparr>)"
  have "rl_run (replicate (nat b + 1) (Call ip, now)) \<lparr>visitors = m, rate = d, burst = b\<rparr> =
        rl_run (replicate (nat b + 1) (Call ip, now)) \<lparr>visitors = ?m0, rate = d, burst = b\<rparr>"
    using assms by (simp add: Allow_overwrites_lastSeen [of m ip "[]" s d b now])
  also have "\<dots> = Some (replicate (nat b) True @ [False],
           \<lparr>visitors = ?m0(ip \<mapsto> \<lparr>limiter = replicate (nat b) (now + d), lastSeen = now\<rparr>),
            rate = d, burst = b\<rparr>)"
    using assms by (intro burst_run_present) simp_all
  finally show ?thesis by simp
qed

text \<open>
  A burst, one rate interval, and the burst again: for an address not yet in the map and
  burst capacity \<open>B \<ge> 0\<close>, \<open>B + 1\<close> immediate calls are admitted \<open>B\<close> times and
  then rejected; once a rate interval has passed and the \<open>B\<close> sleeping goroutines have
  received, the next \<open>B\<close> immediate calls are all admitted and the one after them is
  rejected.
\<close>

lemma burst_then_whole_reservoir_returns:
  assumes "visitors rl ip = None" and "0 \<le> burst rl" and "now + rate rl \<le> now'"
  shows "map_option fst
           (rl_run (replicate (nat (burst rl) + 1) (Call ip, now) @
                    replicate (nat (burst rl)) (Wakeup ip, now') @
                    replicate (nat (burst rl) + 1) (Call ip, now')) rl) =
         Some (replicate (nat (burst rl)) True @ [False] @
               replicate (nat (burst rl)) True @ [False])"
proof -
  obtain m d b where rl: "rl = \<lparr>visitors = m, rate = d, burst = b\<rparr>"
    by (cases rl) simp
  from assms rl have m: "m ip = None" and b: "0 \<le> b" and t: "now + d \<le> now'"
    by simp_all
  let ?m1 = "m(ip \<mapsto> \<lparr>limiter = replicate (nat b) (now + d), lastSeen = now\<rparr>)"
  let ?m2 = "?m1(ip \<mapsto> \<lparr>limiter = [], lastSeen = now\<rparr>)"
  let ?m3 = "?m2(ip \<mapsto> \<lparr>limiter = replicate (nat b) (now' + d), lastSeen = now'\<rparr>)"
  have 1: "rl_run (replicate (nat b + 1) (Call ip, now)) \<lparr>visitors = m, rate = d, burst = b\<rparr> =
      Some (replicate (nat b) True @ [False], \<lparr>visitors = ?m1, rate = d, burst = b\<rparr>)"
    using m b by (rule burst_run_fresh)
  have 2: "rl_run (replicate (nat b) (Wakeup ip, now')) \<lparr>visitors = ?m1, rate = d, burst = b\<rparr> =
      Some ([], \<lparr>visitors = ?m2, rate = d, burst = b\<rparr>)"
    using t by (intro wakeups_run) simp_all
  have 3: "rl_run (replicate (nat b + 1) (Call ip, now')) \<lparr>visitors = ?m2, rate = d, burst = b\<rparr> =
      Some (replicate (nat b) True @ [False], \<lparr>visitors = ?m3, rate = d, burst = b\<rparr>)"
    using b by (intro burst_run_empty [where s = now]) simp_all
  show ?thesis
    unfolding rl
    by (simp only: rl_run_append 1 2 3 RateLimiter.select_convs option.case prod.case
          option.map fst_conv append_Nil append_assoc)
qed

text \<open>
  C4. Burst 2, rate interval 600 ms. Three immediate calls from a new address are
  answered true, true, false. 600 ms later the two sleeping goroutines have received,
  and of three further calls the first two are admitted: the interval has returned the
  whole burst, not one slot.
\<close>

theorem Allow_admits_whole_burst_after_one_interval:
  "map_option fst
     (rl_run [(Call ''10.0.0.1'', 0), (Call ''10.0.0.1'', 0), (Call ''10.0.0.1'', 0),
              (Wakeup ''10.0.0.1'', 600), (Wakeup ''10.0.0.1'', 600),
              (Call ''10.0.0.1'', 600), (Call ''10.0.0.1'', 600), (Call ''10.0.0.1'', 600)]
        (NewRateLimiter 600 2)) =
   Some [True, True, False, True, True, False]"
  by (simp add: Allow_def release_def NewRateLimiter_def)

lemma cleanupVisitors_lookup:
  "visitors (cleanupVisitors rl now) ip =
     (case visitors rl ip of
        None \<Rightarrow> None
      | Some v \<Rightarrow> if Hour < now - lastSeen v then None else Some v)"
  by (simp add: cleanupVisitors_def)

lemma step_keeps_since:
  assumes "\<forall>ip v. visitors rl ip = Some v \<longrightarrow> s - Hour \<le> lastSeen v"
    and "rl_step ev now rl = Some (oks, rl')" and "s \<le> now"
  shows "\<forall>ip v. visitors rl' ip = Some v \<longrightarrow> s - Hour \<le> lastSeen v"
proof (cases ev)
  case (Call ip')
  with assms show ?thesis
    by (auto simp: Allow_def Let_def Hour_def split: option.splits if_splits)
next
  case (Wakeup ip')
  with assms show ?thesis
    by (auto simp: release_def split: option.splits list.splits if_splits)
next
  case Sweep
  with assms show ?thesis
    by (auto simp: cleanupVisitors_def split: option.splits if_splits)
qed

lemma run_keeps_since:
  "\<forall>ip v. visitors rl ip = Some v \<longrightarrow> s - Hour \<le> lastSeen v \<Longrightarrow>
   rl_run post rl = Some (oks, rl') \<Longrightarrow>
   \<forall>et \<in> set post. s \<le> snd et \<Longrightarrow>
   \<forall>ip v. visitors rl' ip = Some v \<longrightarrow> s - Hour \<le> lastSeen v"
proof (induction post arbitrary: rl oks)
  case Nil
  then show ?case by simp
next
  case (Cons et post)
  from Cons.prems(2) obtain oks1 rl1 oks2
    where st: "rl_step (fst et) (snd et) rl = Some (oks1, rl1)"
      and r: "rl_run post rl1 = Some (oks2, rl')"
    by (auto split: option.splits)
  from Cons.prems(3) have "s \<le> snd et"
    by simp
  with Cons.prems(1) st have "\<forall>ip v. visitors rl1 ip = Some v \<longrightarrow> s - Hour \<le> lastSeen v"
    by (rule step_keeps_since)
  moreover from Cons.prems(3) have "\<forall>et \<in> set post. s \<le> snd et"
    by simp
  ultimately show ?case
    using r Cons.IH by blast
qed

lemma burst_after_eviction:
  assumes "visitors rl ip = Some v" and "Hour < s - lastSeen v" and "0 \<le> burst rl"
  shows "map_option fst (rl_run (replicate (nat (burst rl) + 1) (Call ip, now'))
                        (cleanupVisitors rl s)) =
        Some (replicate (nat (burst rl)) True @ [False])"
proof -
  obtain m where cl: "cleanupVisitors rl s = \<lparr>visitors = m, rate = rate rl, burst = burst rl\<rparr>"
    by (cases rl) (simp add: cleanupVisitors_def)
  from assms have "visitors (cleanupVisitors rl s) ip = None"
    by (simp add: cleanupVisitors_lookup)
  with cl have "m ip = None" by simp
  with assms have r: "rl_run (replicate (nat (burst rl) + 1) (Call ip, now'))
           \<lparr>visitors = m, rate = rate rl, burst = burst rl\<rparr> =
         Some (replicate (nat (burst rl)) True @ [False],
           \<lparr>visitors = m(ip \<mapsto> \<lparr>limiter = replicate (nat (burst rl)) (now' + rate rl),
                                   lastSeen = now'\<rparr>),
            rate = rate rl, burst = burst rl\<rparr>)"
    by (intro burst_run_fresh) simp_all
  show ?thesis
    unfolding cl r by simp
qed

text \<open>
  C6 (amended). A sweep removes exactly the visitors last seen more than one hour before
  it and keeps every other visitor as it is. Whatever calls, wake-ups and later sweeps
  follow it, a visitor in the map was last seen no earlier than one hour before that
  sweep: between sweeps a visitor may be more than an hour stale, by no more than the
  time since the last sweep. An address a sweep has evicted is then treated as a new
  one: \<open>B\<close> immediate calls are admitted and the next is rejected.
\<close>

theorem sweep_evicts_idle_then_fresh:
  assumes "rl_run post (cleanupVisitors rl s) = Some (oks, rl')"
    and "\<forall>et \<in> set post. s \<le> snd et"
  shows "visitors (cleanupVisitors rl s) ip =
           (case visitors rl ip of
              None \<Rightarrow> None
            | Some v \<Rightarrow> if Hour < s - lastSeen v then None else Some v) \<and>
         (\<forall>ip' v. visitors rl' ip' = Some v \<longrightarrow> s - Hour \<le> lastSeen v) \<and>
         (\<forall>v now'. visitors rl ip = Some v \<and> Hour < s - lastSeen v \<and> 0 \<le> burst rl \<longrightarrow>
            map_option fst (rl_run (replicate (nat (burst rl) + 1) (Call ip, now'))
                              (cleanupVisitors rl s)) =
              Some (replicate (nat (burst rl)) True @ [False]))"
proof -
  have "\<forall>ip v. visitors (cleanupVisitors rl s) ip = Some v \<longrightarrow> s - Hour \<le> lastSeen v"
    by (auto simp: cleanupVisitors_lookup split: option.splits if_splits)
  from run_keeps_since [OF this assms]
  have a: "\<forall>ip' v. visitors rl' ip' = Some v \<longrightarrow> s - Hour \<le> lastSeen v" .
  have b: "\<forall>v now'. visitors rl ip = Some v \<and> Hour < s - lastSeen v \<and> 0 \<le> burst rl \<longrightarrow>
            map_option fst (rl_run (replicate (nat (burst rl) + 1) (Call ip, now'))
                              (cleanupVisitors rl s)) =
              Some (replicate (nat (burst rl)) True @ [False])"
    using burst_after_eviction by blast
  from a b show ?thesis
    by (simp add: cleanupVisitors_lookup)
qed

theorem sweep_evicts_idle_then_fresh_witness:
  "visitors (cleanupVisitors ex_limiter 3600001) ''10.0.0.1'' = None \<and>
   visitors (cleanupVisitors ex_limiter 3600001) ''10.0.0.2'' = Some \<lparr>limiter = [], lastSeen = 1000\<rparr> \<and>
   map_option fst (rl_run (replicate 3 (Call ''10.0.0.1'', 3600002))
                     (cleanupVisitors ex_limiter 3600001)) =
     Some [True, True, False]"
proof -
  obtain rl' where r: "rl_run [(Call ''10.0.0.2'', 3650000)] (cleanupVisitors ex_limiter 3600001) =
      Some ([True], rl')"
    by (simp add: Allow_def cleanupVisitors_def ex_limiter_def Hour_def)
  have t: "\<forall>et \<in> set [(Call ''10.0.0.2'', 3650000)]. (3600001::int) \<le> snd et"
    by simp
  note s1 = sweep_evicts_idle_then_fresh [OF r t, of "''10.0.0.1''"]
  note s2 = sweep_evicts_idle_then_fresh [OF r t, of "''10.0.0.2''"]
  from s1 have a: "visitors (cleanupVisitors ex_limiter 3600001) ''10.0.0.1'' = None"
    by (simp add: ex_limiter_def Hour_def)
  from s2 have b: "visitors (cleanupVisitors ex_limiter 3600001) ''10.0.0.2'' =
      Some \<lparr>limiter = [], lastSeen = 1000\<rparr>"
    by (simp add: ex_limiter_def Hour_def)
  from s1 [THEN conjunct2, THEN conjunct2, rule_format,
      of "\<lparr>limiter = [600, 600], lastSeen = 0\<rparr>" 3600002]
  have c: "map_option fst (rl_run (replicate 3 (Call ''10.0.0.1'', 3600002))
                     (cleanupVisitors ex_limiter 3600001)) = Some [True, True, False]"
    by (simp add: ex_limiter_def Hour_def numeral_eq_Suc)
  from a b c show ?thesis
    by simp
qed

text \<open>
  A visitor seen at time 0 survives the sweep one hour later, to the millisecond, and
  is still in the map 50 seconds after it, unseen for more than an hour.
\<close>

theorem stale_visitor_between_sweeps_counterexample:
  "map_option (\<lambda>res. map_option lastSeen (visitors (snd res) ''10.0.0.1''))
     (rl_run [(Call ''10.0.0.1'', 0), (Sweep, 3600000), (Call ''10.0.0.2'', 3650000)]
        (NewRateLimiter 600 2)) = Some (Some 0) \<and>
   Hour < 3650000 - 0"
  by (simp add: Allow_def cleanupVisitors_def NewRateLimiter_def Hour_def)

lemma step_keeps_recent:
  assumes "\<exists>v. visitors rl ip = Some v \<and> t \<le> lastSeen v"
    and "rl_step ev now rl = Some (oks, rl')" and "t \<le> now" and "now \<le> t + Hour"
  shows "\<exists>v. visitors rl' ip = Some v \<and> t \<le> lastSeen v"
proof (cases ev)
  case (Call ip')
  with assms show ?thesis
    by (cases "ip' = ip") (auto simp: Allow_def Let_def split: option.splits if_splits)
next
  case (Wakeup ip')
  with assms show ?thesis
    by (cases "ip' = ip") (auto simp: release_def split: option.splits list.splits)
next
  case Sweep
  with assms show ?thesis
    by (auto simp: cleanupVisitors_def)
qed

lemma run_keeps_recent:
  "\<exists>v. visitors rl ip = Some v \<and> t \<le> lastSeen v \<Longrightarrow>
   rl_run post rl = Some (oks, rl') \<Longrightarrow>
   \<forall>et \<in> set post. t \<le> snd et \<and> snd et \<le> t + Hour \<Longrightarrow>
   \<exists>v. visitors rl' ip = Some v \<and> t \<le> lastSeen v"
proof (induction post arbitrary: rl oks)
  case Nil
  then show ?case by simp
next
  case (Cons et post)
  from Cons.prems(2) obtain oks1 rl1 oks2
    where s: "rl_step (fst et) (snd et) rl = Some (oks1, rl1)"
      and r: "rl_run post rl1 = Some (oks2, rl')"
    by (auto split: option.splits)
  from Cons.prems(3) have "t \<le> snd et" and "snd et \<le> t + Hour"
    by simp_all
  with Cons.prems(1) s have "\<exists>v. visitors rl1 ip = Some v \<and> t \<le> lastSeen v"
    by (rule step_keeps_recent)
  moreover from Cons.prems(3) have "\<forall>et \<in> set post. t \<le> snd et \<and> snd et \<le> t + Hour"
    by simp
  ultimately show ?case
    using r Cons.IH by blast
qed

text \<open>
  C10. Every call of \<^verbatim>\<open>Allow\<close>, admitted or rejected, sets the visitor's last-seen
  time to the time of the call; and whatever calls, wake-ups and sweeps follow within the
  hour after it, the visitor is still in the map.
\<close>

theorem calling_client_not_evicted:
  assumes "Allow rl t ip = Some (ok, rl1)"
    and "rl_run post rl1 = Some (oks, rl2)"
    and "\<forall>et \<in> set post. t \<le> snd et \<and> snd et \<le> t + Hour"
  shows "(\<exists>v. visitors rl1 ip = Some v \<and> lastSeen v = t) \<and>
         (\<exists>v. visitors rl2 ip = Some v \<and> t \<le> lastSeen v)"
proof -
  from assms(1) have 1: "\<exists>v. visitors rl1 ip = Some v \<and> lastSeen v = t"
    by (auto simp: Allow_def Let_def split: option.splits if_splits)
  then have "\<exists>v. visitors rl1 ip = Some v \<and> t \<le> lastSeen v"
    by auto
  from run_keeps_recent [OF this assms(2) assms(3)] 1 show ?thesis
    by simp
qed

theorem calling_client_not_evicted_witness:
  "Allow (NewRateLimiter 600 0) 0 ''10.0.0.1'' =
     Some (False, \<lparr>visitors = [''10.0.0.1'' \<mapsto> \<lparr>limiter = [], lastSeen = 0\<rparr>],
                   rate = 600, burst = 0\<rparr>) \<and>
   (\<exists>rl2. rl_run [(Call ''10.0.0.2'', 5), (Sweep, 60000), (Call ''10.0.0.1'', 1800000),
                   (Sweep, 3600000)]
             \<lparr>visitors = [''10.0.0.1'' \<mapsto> \<lparr>limiter = [], lastSeen = 0\<rparr>],
               rate = 600, burst = 0\<rparr> = Some ([False, False], rl2) \<and>
          (\<exists>v. visitors rl2 ''10.0.0.1'' = Some v \<and> 0 \<le> lastSeen v))"
proof -
  let ?rl1 = "\<lparr>visitors = [''10.0.0.1'' \<mapsto> \<lparr>limiter = [], lastSeen = 0\<rparr>],
               rate = 600, burst = 0\<rparr>"
  let ?post = "[(Call ''10.0.0.2'', 5), (Sweep, 60000), (Call ''10.0.0.1'', 1800000),
                   (Sweep, 3600000)]"
  have a: "Allow (NewRateLimiter 600 0) 0 ''10.0.0.1'' = Some (False, ?rl1)"
    by (simp add: Allow_def NewRateLimiter_def)
  obtain rl2 where r: "rl_run ?post ?rl1 = Some ([False, False], rl2)"
    by (simp add: Allow_def cleanupVisitors_def Hour_def)
  have t: "\<forall>et \<in> set ?post. (0::int) \<le> snd et \<and> snd et \<le> 0 + Hour"
    by (simp add: Hour_def)
  from calling_client_not_evicted [OF a r t] a r show ?thesis
    by blast
qed

end
